theory Spec2Isabelle
  imports Complex_Main "HOL-Library.Word"
begin

section \<open>Numbers\<close>

text \<open>
  The program is \<open>src/App.js\<close>: a loader for binary glTF containers (\<open>loadGLB\<close>), a
  geometry normaliser (\<open>normalizeGeometry\<close>), a vertex-count reconciler
  (\<open>expandToMaxVertices\<close>) and the animation loop (\<open>animate\<close>) that morphs one vertex buffer
  between meshes.

  A JavaScript number is modelled as an exact real, or one of \<open>NaN\<close>, \<open>-Infinity\<close>,
  \<open>Infinity\<close>. The special values follow the rules of the language: \<open>NaN\<close> is absorbing,
  \<open>Infinity - Infinity\<close>, \<open>0 * Infinity\<close>, \<open>0 / 0\<close> and \<open>Infinity / Infinity\<close> are \<open>NaN\<close>, a
  non-zero number divided by zero is an infinity. What the model leaves out is rounding:
  arithmetic is exact, a value stored in a \<open>Float32Array\<close> is stored as it is, overflow to an
  infinity does not occur, and zero has no sign (a zero divisor counts as \<open>+0\<close>). Every
  statement below about computed coordinates is a statement in exact arithmetic.
\<close>

datatype num = NaN | NInf | Fin real | PInf

fun js_min :: "num \<Rightarrow> num \<Rightarrow> num" where
  "js_min NaN b = NaN"
| "js_min a NaN = NaN"
| "js_min NInf b = NInf"
| "js_min a NInf = NInf"
| "js_min PInf b = b"
| "js_min a PInf = a"
| "js_min (Fin a) (Fin b) = Fin (min a b)"

fun js_max :: "num \<Rightarrow> num \<Rightarrow> num" where
  "js_max NaN b = NaN"
| "js_max a NaN = NaN"
| "js_max PInf b = PInf"
| "js_max a PInf = PInf"
| "js_max NInf b = b"
| "js_max a NInf = a"
| "js_max (Fin a) (Fin b) = Fin (max a b)"

fun js_neg :: "num \<Rightarrow> num" where
  "js_neg NaN = NaN"
| "js_neg NInf = PInf"
| "js_neg PInf = NInf"
| "js_neg (Fin a) = Fin (- a)"

fun js_add :: "num \<Rightarrow> num \<Rightarrow> num" where
  "js_add NaN b = NaN"
| "js_add a NaN = NaN"
| "js_add PInf NInf = NaN"
| "js_add NInf PInf = NaN"
| "js_add PInf b = PInf"
| "js_add a PInf = PInf"
| "js_add NInf b = NInf"
| "js_add a NInf = NInf"
| "js_add (Fin a) (Fin b) = Fin (a + b)"

definition js_sub :: "num \<Rightarrow> num \<Rightarrow> num" where
  "js_sub a b = js_add a (js_neg b)"

definition signed_inf :: "bool \<Rightarrow> num" where
  "signed_inf positive = (if positive then PInf else NInf)"

fun js_mul :: "num \<Rightarrow> num \<Rightarrow> num" where
  "js_mul NaN b = NaN"
| "js_mul a NaN = NaN"
| "js_mul (Fin a) (Fin b) = Fin (a * b)"
| "js_mul (Fin a) PInf = (if a = 0 then NaN else signed_inf (0 < a))"
| "js_mul (Fin a) NInf = (if a = 0 then NaN else signed_inf (a < 0))"
| "js_mul PInf (Fin b) = (if b = 0 then NaN else signed_inf (0 < b))"
| "js_mul NInf (Fin b) = (if b = 0 then NaN else signed_inf (b < 0))"
| "js_mul PInf PInf = PInf"
| "js_mul NInf NInf = PInf"
| "js_mul PInf NInf = NInf"
| "js_mul NInf PInf = NInf"

fun js_div :: "num \<Rightarrow> num \<Rightarrow> num" where
  "js_div NaN b = NaN"
| "js_div a NaN = NaN"
| "js_div (Fin a) (Fin b) =
     (if b = 0 then (if a = 0 then NaN else signed_inf (0 < a)) else Fin (a / b))"
| "js_div (Fin a) PInf = Fin 0"
| "js_div (Fin a) NInf = Fin 0"
| "js_div PInf (Fin b) = signed_inf (0 \<le> b)"
| "js_div NInf (Fin b) = signed_inf (b < 0)"
| "js_div PInf PInf = NaN"
| "js_div PInf NInf = NaN"
| "js_div NInf PInf = NaN"
| "js_div NInf NInf = NaN"

fun js_sqrt :: "num \<Rightarrow> num" where
  "js_sqrt NaN = NaN"
| "js_sqrt NInf = NaN"
| "js_sqrt PInf = PInf"
| "js_sqrt (Fin a) = (if a < 0 then NaN else Fin (sqrt a))"

fun js_sin :: "num \<Rightarrow> num" where
  "js_sin (Fin a) = Fin (sin a)"
| "js_sin a = NaN"

text \<open>
  Reading a typed array (or a plain array that is later converted to a \<open>Float32Array\<close>) at an
  index out of range gives \<open>undefined\<close>, which arithmetic and typed-array stores turn into
  \<open>NaN\<close>. Writing a typed array out of range does nothing, as \<open>xs[i := v]\<close> does.
\<close>

definition rd :: "num list \<Rightarrow> nat \<Rightarrow> num" where
  "rd a i = (if i < length a then a ! i else NaN)"

text \<open>The values of \<open>i\<close> in \<open>for (let i = 0; i < n; i += 3)\<close>.\<close>

definition for3 :: "nat \<Rightarrow> nat list" where
  "for3 n = map (\<lambda>k. k * 3) [0..<(n + 2) div 3]"

section \<open>Byte buffers and typed-array views\<close>

text \<open>
  Exceptions are values. \<open>NotValidGLB\<close> and \<open>InvalidGLBFormat\<close> are the two
  \<open>throw new Error(...)\<close> of \<open>loadGLB\<close>; \<open>RangeError\<close>, \<open>SyntaxError\<close> and \<open>TypeError\<close> are thrown
  by the platform (a read or a view outside the buffer or misaligned, \<open>JSON.parse\<close>, a
  property of \<open>undefined\<close>). The \<open>catch\<close> block of \<open>loadGLB\<close> logs and rethrows.
\<close>

datatype error = NotValidGLB | InvalidGLBFormat | RangeError | SyntaxError | TypeError

definition bindE :: "error + 'a \<Rightarrow> ('a \<Rightarrow> error + 'b) \<Rightarrow> error + 'b" where
  "bindE r f = (case r of Inl e \<Rightarrow> Inl e | Inr x \<Rightarrow> f x)"

type_synonym byte = "8 word"

text \<open>\<open>dataView.getUint32(byteOffset, true)\<close>: little-endian, \<open>RangeError\<close> outside the buffer.\<close>

definition getUint32 :: "byte list \<Rightarrow> nat \<Rightarrow> error + nat" where
  "getUint32 buf byteOffset =
     (if byteOffset + 4 \<le> length buf
      then Inr (unat (buf ! byteOffset) + 256 * unat (buf ! (byteOffset + 1))
                + 65536 * unat (buf ! (byteOffset + 2)) + 16777216 * unat (buf ! (byteOffset + 3)))
      else Inl RangeError)"

definition getUint16 :: "byte list \<Rightarrow> nat \<Rightarrow> nat" where
  "getUint16 buf byteOffset = unat (buf ! byteOffset) + 256 * unat (buf ! (byteOffset + 1))"

text \<open>
  The number denoted by the 32 bits of an IEEE 754 single: sign, 8 exponent bits, 23
  fraction bits. Every finite single is a real number, so decoding is exact.
\<close>

definition decodeFloat32 :: "nat \<Rightarrow> num" where
  "decodeFloat32 w =
     (let sign = (w div 2 ^ 31) mod 2; e = (w div 2 ^ 23) mod 256; m = w mod 2 ^ 23;
          mag = (if e = 0 then real m / 2 ^ 149
                 else if e < 150 then real (2 ^ 23 + m) / 2 ^ (150 - e)
                 else real (2 ^ 23 + m) * 2 ^ (e - 150))
      in if e = 255 then (if m = 0 then signed_inf (sign = 0) else NaN)
         else Fin (if sign = 1 then - mag else mag))"

text \<open>
  \<open>new T(buffer, byteOffset, length)\<close> for the four element types in use: a view of
  \<open>length\<close> elements, \<open>RangeError\<close> when the offset is not a multiple of the element size or
  the view does not fit the buffer.
\<close>

definition Uint8Array :: "byte list \<Rightarrow> nat \<Rightarrow> nat \<Rightarrow> error + byte list" where
  "Uint8Array buf byteOffset len =
     (if byteOffset + len \<le> length buf then Inr (take len (drop byteOffset buf)) else Inl RangeError)"

definition Uint16Array :: "byte list \<Rightarrow> nat \<Rightarrow> nat \<Rightarrow> error + nat list" where
  "Uint16Array buf byteOffset len =
     (if byteOffset mod 2 = 0 \<and> byteOffset + len * 2 \<le> length buf
      then Inr (map (\<lambda>k. getUint16 buf (byteOffset + k * 2)) [0..<len])
      else Inl RangeError)"

definition Uint32Array :: "byte list \<Rightarrow> nat \<Rightarrow> nat \<Rightarrow> error + nat list" where
  "Uint32Array buf byteOffset len =
     (if byteOffset mod 4 = 0 \<and> byteOffset + len * 4 \<le> length buf
      then Inr (map (\<lambda>k. case getUint32 buf (byteOffset + k * 4) of Inr w \<Rightarrow> w | Inl e \<Rightarrow> 0) [0..<len])
      else Inl RangeError)"

definition Float32Array :: "byte list \<Rightarrow> nat \<Rightarrow> nat \<Rightarrow> error + num list" where
  "Float32Array buf byteOffset len =
     (if byteOffset mod 4 = 0 \<and> byteOffset + len * 4 \<le> length buf
      then Inr (map (\<lambda>k. case getUint32 buf (byteOffset + k * 4) of Inr w \<Rightarrow> decodeFloat32 w | Inl e \<Rightarrow> NaN) [0..<len])
      else Inl RangeError)"


section \<open>loadGLB\<close>

text \<open>
  The part of the parsed metadata that \<open>loadGLB\<close> reads. A field that may be absent is an
  option (\<open>None\<close> for \<open>undefined\<close>); \<open>count\<close> and \<open>componentType\<close> are taken to be present, and
  all fields to be natural numbers. \<open>JSON.parse\<close> with the text decoder is a parameter of
  \<open>loadGLB\<close>, \<open>None\<close> standing for a \<open>SyntaxError\<close>; the argument of \<open>loadGLB\<close> is the buffer
  that \<open>fetch\<close> delivered. A mesh is the list of its primitives.
\<close>

record accessor =
  bufferView :: "nat option"
  byteOffset :: "nat option"
  count :: nat
  componentType :: nat

record bufferViewEntry =
  viewByteOffset :: "nat option"

record primitive =
  POSITION :: "nat option"
  indicesAccessor :: "nat option"

record gltf =
  meshes :: "primitive list list option"
  accessors :: "accessor list"
  bufferViews :: "bufferViewEntry list"

text \<open>
  The objects that carry a \<open>positions\<close> array: \<open>{ positions }\<close> (a loaded model),
  \<open>{ positions, indices }\<close> (a mesh returned by \<open>loadGLB\<close>, \<open>indices\<close> being \<open>null\<close> or an
  array) and \<open>{ positions, vertexCount }\<close> (a mesh returned by \<open>expandToMaxVertices\<close>).
\<close>

record model =
  positions :: "num list"

record meshData = model +
  indices :: "nat list option"

record expanded = model +
  vertexCount :: nat

text \<open>
  \<open>xs[i]\<close> followed by a property access: an absent index or one out of range gives
  \<open>undefined\<close>, and the property access throws.
\<close>

definition getEntry :: "'a list \<Rightarrow> nat option \<Rightarrow> error + 'a" where
  "getEntry xs i =
     (case i of None \<Rightarrow> Inl TypeError
      | Some k \<Rightarrow> if k < length xs then Inr (xs ! k) else Inl TypeError)"

text \<open>\<open>v || 0\<close> on an offset.\<close>

definition orZero :: "nat option \<Rightarrow> nat" where
  "orZero v = (case v of None \<Rightarrow> 0 | Some n \<Rightarrow> n)"

text \<open>
  Lines 75 to 94: the indices of a primitive. \<open>binaryOffset\<close> is \<open>binaryData.byteOffset\<close>;
  the views are taken on \<open>binaryData.buffer\<close>, the whole container.
\<close>

definition decodeIndices :: "gltf \<Rightarrow> byte list \<Rightarrow> nat \<Rightarrow> primitive \<Rightarrow> error + nat list option" where
  "decodeIndices g buf binaryOffset p =
     (case indicesAccessor p of
        None \<Rightarrow> Inr None
      | Some ia \<Rightarrow>
          bindE (getEntry (accessors g) (Some ia)) (\<lambda>indAccessor.
          bindE (getEntry (bufferViews g) (bufferView indAccessor)) (\<lambda>indBufferView.
            let indByteOffset = orZero (viewByteOffset indBufferView) + orZero (byteOffset indAccessor)
            in if componentType indAccessor = 5123
               then map_sum id Some (Uint16Array buf (binaryOffset + indByteOffset) (count indAccessor))
               else if componentType indAccessor = 5125
               then map_sum id Some (Uint32Array buf (binaryOffset + indByteOffset) (count indAccessor))
               else Inr None)))"

text \<open>Lines 62 to 96: the body of the loop over the primitives.\<close>

definition extractPrimitive :: "gltf \<Rightarrow> byte list \<Rightarrow> nat \<Rightarrow> primitive \<Rightarrow> error + meshData" where
  "extractPrimitive g buf binaryOffset p =
     bindE (getEntry (accessors g) (POSITION p)) (\<lambda>posAccessor.
     bindE (getEntry (bufferViews g) (bufferView posAccessor)) (\<lambda>posBufferView.
       let posByteOffset = orZero (viewByteOffset posBufferView) + orZero (byteOffset posAccessor)
       in bindE (Float32Array buf (binaryOffset + posByteOffset) (count posAccessor * 3)) (\<lambda>posData.
          bindE (decodeIndices g buf binaryOffset p) (\<lambda>ix.
            Inr \<lparr>positions = posData, indices = ix\<rparr>))))"

fun extractAll :: "gltf \<Rightarrow> byte list \<Rightarrow> nat \<Rightarrow> primitive list \<Rightarrow> error + meshData list" where
  "extractAll g buf binaryOffset [] = Inr []"
| "extractAll g buf binaryOffset (p # ps) =
     bindE (extractPrimitive g buf binaryOffset p) (\<lambda>m.
     bindE (extractAll g buf binaryOffset ps) (\<lambda>ms. Inr (m # ms)))"

text \<open>Lines 28 to 106.\<close>

definition loadGLB :: "(byte list \<Rightarrow> gltf option) \<Rightarrow> byte list \<Rightarrow> error + meshData list" where
  "loadGLB parseJSON arrayBuffer =
     bindE (getUint32 arrayBuffer 0) (\<lambda>magic.
       if magic \<noteq> 0x46546C67 then Inl NotValidGLB
       else
         bindE (getUint32 arrayBuffer 12) (\<lambda>jsonChunkLength.
         bindE (getUint32 arrayBuffer 16) (\<lambda>jsonChunkType.
           if jsonChunkType \<noteq> 0x4E4F534A then Inl InvalidGLBFormat
           else
             bindE (Uint8Array arrayBuffer 20 jsonChunkLength) (\<lambda>jsonData.
             bindE (case parseJSON jsonData of None \<Rightarrow> Inl SyntaxError | Some g \<Rightarrow> Inr g) (\<lambda>g.
             bindE (getUint32 arrayBuffer (20 + jsonChunkLength)) (\<lambda>binaryChunkLength.
             bindE (Uint8Array arrayBuffer (28 + jsonChunkLength) binaryChunkLength) (\<lambda>binaryData.
               case meshes g of
                 None \<Rightarrow> Inr []
               | Some ms \<Rightarrow> extractAll g arrayBuffer (28 + jsonChunkLength) (concat ms))))))))"

section \<open>De-indexing\<close>

text \<open>
  Lines 307 to 322 of \<open>init\<close>: \<open>allPositions\<close> collects the positions of all meshes of one
  model, a triple per index for an indexed mesh. The array is then converted to a
  \<open>Float32Array\<close>, which is where an \<open>undefined\<close> read out of range becomes \<open>NaN\<close>.
\<close>

definition pushVertex :: "num list \<Rightarrow> nat list \<Rightarrow> nat \<Rightarrow> num list \<Rightarrow> num list" where
  "pushVertex ps ix i allPositions =
     (let idx = (ix ! i) * 3
      in allPositions @ [rd ps idx, rd ps (idx + 1), rd ps (idx + 2)])"

definition pushMesh :: "meshData \<Rightarrow> num list \<Rightarrow> num list" where
  "pushMesh md allPositions =
     (case indices md of
        Some ix \<Rightarrow> fold (pushVertex (positions md) ix) [0..<length ix] allPositions
      | None \<Rightarrow> allPositions @ positions md)"

definition combineMeshes :: "meshData list \<Rightarrow> num list" where
  "combineMeshes ms = fold pushMesh ms []"

section \<open>normalizeGeometry\<close>

text \<open>
  Lines 109 to 136. \<open>boundingBox\<close> is the first loop, \<open>centerX\<close>, \<open>centerY\<close>, \<open>centerZ\<close> and
  \<open>scale\<close> are lines 123 to 126, \<open>normalizeStep\<close> is the body of the second loop.
\<close>

record bounds =
  minX :: num
  maxX :: num
  minY :: num
  maxY :: num
  minZ :: num
  maxZ :: num

definition boundsStep :: "num list \<Rightarrow> nat \<Rightarrow> bounds \<Rightarrow> bounds" where
  "boundsStep ps i b =
     \<lparr>minX = js_min (minX b) (rd ps i), maxX = js_max (maxX b) (rd ps i),
      minY = js_min (minY b) (rd ps (i + 1)), maxY = js_max (maxY b) (rd ps (i + 1)),
      minZ = js_min (minZ b) (rd ps (i + 2)), maxZ = js_max (maxZ b) (rd ps (i + 2))\<rparr>"

definition boundingBox :: "num list \<Rightarrow> bounds" where
  "boundingBox ps =
     fold (boundsStep ps) (for3 (length ps))
       \<lparr>minX = PInf, maxX = NInf, minY = PInf, maxY = NInf, minZ = PInf, maxZ = NInf\<rparr>"

definition centerX :: "bounds \<Rightarrow> num" where
  "centerX b = js_div (js_add (minX b) (maxX b)) (Fin 2)"

definition centerY :: "bounds \<Rightarrow> num" where
  "centerY b = js_div (js_add (minY b) (maxY b)) (Fin 2)"

definition centerZ :: "bounds \<Rightarrow> num" where
  "centerZ b = js_div (js_add (minZ b) (maxZ b)) (Fin 2)"

definition scale :: "bounds \<Rightarrow> num" where
  "scale b = js_max (js_max (js_sub (maxX b) (minX b)) (js_sub (maxY b) (minY b)))
                    (js_sub (maxZ b) (minZ b))"

definition normalizeStep :: "num list \<Rightarrow> bounds \<Rightarrow> num \<Rightarrow> nat \<Rightarrow> num list \<Rightarrow> num list" where
  "normalizeStep ps b size' i normalized =
     normalized
       [i := js_mul (js_div (js_sub (rd ps i) (centerX b)) (scale b)) size',
        i + 1 := js_mul (js_div (js_sub (rd ps (i + 1)) (centerY b)) (scale b)) size',
        i + 2 := js_mul (js_div (js_sub (rd ps (i + 2)) (centerZ b)) (scale b)) size']"

definition normalizeGeometry :: "num list \<Rightarrow> num \<Rightarrow> num list" where
  "normalizeGeometry ps size' =
     (let b = boundingBox ps;
          normalized = replicate (length ps) (Fin 0)
      in fold (normalizeStep ps b size') (for3 (length ps)) normalized)"

text \<open>
  The same function on a store of typed arrays, for statements about what a call writes.
  An address is an index into the store; \<open>new Float32Array(n)\<close> appends an array of zeros,
  and the loop writes through the store at the new address while it reads the input at
  address \<open>p\<close>.
\<close>

type_synonym store = "num list list"

definition normalizeGeometry_store :: "store \<Rightarrow> nat \<Rightarrow> num \<Rightarrow> store \<times> nat" where
  "normalizeGeometry_store st p size' =
     (let b = boundingBox (st ! p);
          r = length st;
          st1 = st @ [replicate (length (st ! p)) (Fin 0)]
      in (fold (\<lambda>i s. s[r := normalizeStep (s ! p) b size' i (s ! r)]) (for3 (length (st ! p))) st1, r))"

section \<open>expandToMaxVertices\<close>

text \<open>
  Lines 139 to 176. The vertex counts \<open>positions.length / 3\<close> are natural numbers here: the
  model covers arrays whose length is a multiple of 3, which are the arrays \<open>init\<close> builds,
  and the statements below assume it. \<open>Math.max\<close> of no arguments is \<open>-Infinity\<close>; the
  model has 0 there, and \<open>map\<close> over no models returns no models either way. With a vertex
  count of 0, \<open>i % currentCount\<close> is \<open>NaN\<close> and the padding reads \<open>undefined\<close>. A \<open>null\<close> entry
  in the list (a scroll model that failed to load) is not modelled.
\<close>

definition copyVertex :: "num list \<Rightarrow> nat \<Rightarrow> nat \<Rightarrow> num list \<Rightarrow> num list" where
  "copyVertex src srcIdx dstIdx dst =
     dst[dstIdx := rd src srcIdx, dstIdx + 1 := rd src (srcIdx + 1), dstIdx + 2 := rd src (srcIdx + 2)]"

definition padVertex :: "num list \<Rightarrow> nat \<Rightarrow> nat \<Rightarrow> num list \<Rightarrow> num list" where
  "padVertex src currentCount i dst =
     (if currentCount = 0
      then dst[i * 3 := NaN, i * 3 + 1 := NaN, i * 3 + 2 := NaN]
      else copyVertex src ((i mod currentCount) * 3) (i * 3) dst)"

definition expandModel :: "nat \<Rightarrow> model \<Rightarrow> expanded" where
  "expandModel maxVertices m =
     (let currentCount = length (positions m) div 3 in
      if currentCount = maxVertices
      then \<lparr>positions = positions m, vertexCount = currentCount\<rparr>
      else
        let expandedPositions = replicate (maxVertices * 3) (Fin 0);
            filled = fold (\<lambda>i. copyVertex (positions m) (i * 3) (i * 3)) [0..<currentCount] expandedPositions;
            padded = fold (padVertex (positions m) currentCount) [currentCount..<maxVertices] filled
        in \<lparr>positions = padded, vertexCount = currentCount\<rparr>)"

definition expandToMaxVertices :: "model list \<Rightarrow> expanded list" where
  "expandToMaxVertices models =
     (let maxVertices = fold max (map (\<lambda>m. length (positions m) div 3) models) 0
      in map (expandModel maxVertices) models)"


section \<open>The animation loop\<close>

text \<open>
  Lines 527 to 538 and 629 to 801. The state holds the three vertex buffers of the geometry
  (\<open>position\<close>, \<open>targetPosition\<close>, \<open>originalPosition\<close>, three distinct arrays) and the
  variables of \<open>init\<close> that \<open>animate\<close> updates. What \<open>animate\<close> reads and does not write is the
  environment: the view mode (\<open>viewModeRef.current\<close>, set by the button handlers between
  frames), \<open>modelDataRef.current\<close> and \<open>scrollModelRef.current\<close>. The rotation of the mesh,
  the text overlay, the shards and the call of the renderer do not touch the buffers and
  are left out. Progress values and the ripple phase are reals.
\<close>

record sched =
  position :: "num list"
  targetPosition :: "num list"
  originalPosition :: "num list"
  morphProgress :: real
  ripplePhase :: real
  frameCount :: nat
  localCurrentShape :: nat
  isMorphing :: bool
  lastViewMode :: string
  viewMorphProgress :: real
  isViewMorphing :: bool

record env =
  viewMode :: string
  modelData :: "expanded list"
  scrollModel :: expanded

definition morphDuration :: real where
  "morphDuration = 120"

definition shapeChangeInterval :: nat where
  "shapeChangeInterval = 300"

definition initSched :: "expanded \<Rightarrow> sched" where
  "initSched m =
     \<lparr>position = positions m, targetPosition = positions m, originalPosition = positions m,
      morphProgress = 0, ripplePhase = 0, frameCount = 0, localCurrentShape = 0,
      isMorphing = False, lastViewMode = ''objects'', viewMorphProgress = 0,
      isViewMorphing = False\<rparr>"

definition eased :: "real \<Rightarrow> real" where
  "eased p = (if p < 0.5 then 2 * p * p else 1 - (- 2 * p + 2) ^ 2 / 2)"

definition lerp :: "num \<Rightarrow> num \<Rightarrow> real \<Rightarrow> num" where
  "lerp orig targ e = js_add orig (js_mul (js_sub targ orig) (Fin e))"

definition lerpStep :: "num list \<Rightarrow> num list \<Rightarrow> real \<Rightarrow> nat \<Rightarrow> num list \<Rightarrow> num list" where
  "lerpStep orig targ e i pos =
     pos[i := lerp (rd orig i) (rd targ i) e,
         i + 1 := lerp (rd orig (i + 1)) (rd targ (i + 1)) e,
         i + 2 := lerp (rd orig (i + 2)) (rd targ (i + 2)) e]"

definition interpolate :: "sched \<Rightarrow> real \<Rightarrow> num list" where
  "interpolate s e =
     fold (lerpStep (originalPosition s) (targetPosition s) e) (for3 (length (position s))) (position s)"

text \<open>Lines 690 to 707.\<close>

definition viewStep :: "sched \<Rightarrow> sched" where
  "viewStep s =
     (if isViewMorphing s \<and> viewMorphProgress s < 1
      then let p = viewMorphProgress s + 1 / morphDuration
           in s\<lparr>viewMorphProgress := p, position := interpolate s (eased p),
                isViewMorphing := (if 1 \<le> p then False else isViewMorphing s)\<rparr>
      else s)"

text \<open>
  \<open>dst.set(src)\<close> on typed arrays: \<open>RangeError\<close> when \<open>src\<close> is longer than \<open>dst\<close>, else the
  first elements of \<open>dst\<close> are overwritten.
\<close>

definition typedArraySet :: "num list \<Rightarrow> num list \<Rightarrow> error + num list" where
  "typedArraySet dst src =
     (if length src \<le> length dst then Inr (src @ drop (length src) dst) else Inl RangeError)"

text \<open>
  The statements shared by the five branches of lines 710 to 759. An exception leaves
  \<open>animate\<close>; the model then returns the error and no state.
\<close>

definition retarget :: "sched \<Rightarrow> expanded \<Rightarrow> string \<Rightarrow> error + sched" where
  "retarget s nextModel mode =
     bindE (typedArraySet (targetPosition s) (positions nextModel)) (\<lambda>t.
     bindE (typedArraySet (originalPosition s) (position s)) (\<lambda>orig.
       Inr (s\<lparr>morphProgress := 0, isMorphing := True, targetPosition := t,
               originalPosition := orig, lastViewMode := mode\<rparr>)))"

definition triggerMorph :: "env \<Rightarrow> sched \<Rightarrow> error + sched" where
  "triggerMorph ev s =
     (if viewMode ev = ''objects'' \<and> frameCount s mod shapeChangeInterval = 0
          \<and> 1 < length (modelData ev) \<and> \<not> isViewMorphing s
      then let nextShape = (localCurrentShape s + 1) mod length (modelData ev)
           in bindE (retarget s (modelData ev ! nextShape) ''objects'') (\<lambda>s'.
                Inr (s'\<lparr>localCurrentShape := nextShape\<rparr>))
      else if viewMode ev = ''about'' \<and> lastViewMode s \<noteq> ''about''
      then retarget s (scrollModel ev) ''about''
      else if viewMode ev = ''projects'' \<and> lastViewMode s \<noteq> ''projects''
      then retarget s (scrollModel ev) ''projects''
      else if viewMode ev = ''CV'' \<and> lastViewMode s \<noteq> ''CV''
      then retarget s (scrollModel ev) ''CV''
      else if viewMode ev = ''icons'' \<and> lastViewMode s \<noteq> ''icons''
      then retarget s (scrollModel ev) ''icons''
      else Inr s)"

text \<open>Lines 762 to 779.\<close>

definition morphStep :: "sched \<Rightarrow> sched" where
  "morphStep s =
     (if isMorphing s \<and> morphProgress s < 1 \<and> \<not> isViewMorphing s
      then let p = morphProgress s + 1 / morphDuration
           in s\<lparr>morphProgress := p, position := interpolate s (eased p),
                isMorphing := (if 1 \<le> p then False else isMorphing s)\<rparr>
      else s)"

text \<open>Lines 781 to 798.\<close>

definition rippleVertex :: "real \<Rightarrow> real \<Rightarrow> nat \<Rightarrow> num list \<Rightarrow> num list" where
  "rippleVertex phase activeProgress i pos =
     (let x = rd pos i; y = rd pos (i + 1); z = rd pos (i + 2);
          dist = js_sqrt (js_add (js_add (js_mul x x) (js_mul y y)) (js_mul z z));
          ripple = js_mul (js_mul (js_sin (js_sub (js_mul dist (Fin 5)) (Fin (phase * 3)))) (Fin 0.05))
                          (Fin (1 - activeProgress))
      in pos[i := js_add x (js_mul x ripple),
             i + 1 := js_add y (js_mul y ripple),
             i + 2 := js_add z (js_mul z ripple)])"

definition activeProgress :: "sched \<Rightarrow> real" where
  "activeProgress s = (if isViewMorphing s then viewMorphProgress s else morphProgress s)"

definition applyRipple :: "sched \<Rightarrow> num list" where
  "applyRipple s = fold (rippleVertex (ripplePhase s) (activeProgress s)) (for3 (length (position s))) (position s)"

definition rippleStep :: "sched \<Rightarrow> sched" where
  "rippleStep s0 =
     (let s = s0\<lparr>ripplePhase := ripplePhase s0 + 0.05\<rparr>
      in if (0 < morphProgress s \<and> morphProgress s < 1 \<and> \<not> isViewMorphing s)
            \<or> (isViewMorphing s \<and> 0 < viewMorphProgress s \<and> viewMorphProgress s < 1)
         then s\<lparr>position := applyRipple s\<rparr>
         else s)"

text \<open>One call of \<open>animate\<close>.\<close>

definition tick :: "env \<Rightarrow> sched \<Rightarrow> error + sched" where
  "tick ev s =
     bindE (triggerMorph ev (viewStep (s\<lparr>frameCount := frameCount s + 1\<rparr>))) (\<lambda>s'.
       Inr (rippleStep (morphStep s')))"



section \<open>Notions used in the statements, and concrete inputs\<close>

text \<open>
  \<open>vertexOf ps i\<close> is vertex \<open>i\<close> of a flat array; \<open>maxVertexCount\<close> the largest vertex count
  of a list of meshes; \<open>isFormatError\<close> holds of the two errors thrown by the header checks;
  \<open>finiteBuf\<close> says that a buffer holds finite numbers only, \<open>val\<close> is the real behind a
  finite number and \<open>coord ps t k\<close> coordinate \<open>t\<close> of vertex \<open>k\<close>; \<open>centerOf b t\<close> is the centre
  of a box on axis \<open>t\<close>. \<open>schedOk\<close> describes the states of the animation loop on reconciled
  finite meshes: three finite buffers of one length, a multiple of 3, shared with every
  mesh, the view-morph flag not set and a progress that is not negative. \<open>boundaryOk\<close> is
  the boundary property of a morph.
\<close>

definition vertexOf :: "num list \<Rightarrow> nat \<Rightarrow> num \<times> num \<times> num" where
  "vertexOf ps i = (rd ps (i * 3), rd ps (i * 3 + 1), rd ps (i * 3 + 2))"

definition maxVertexCount :: "model list \<Rightarrow> nat" where
  "maxVertexCount models = Max ((\<lambda>m. length (positions m) div 3) ` set models)"

definition ms0 :: "model list" where
  "ms0 = [\<lparr>positions = [Fin 1, Fin 2, Fin 3]\<rparr>,
          \<lparr>positions = [Fin 4, Fin 5, Fin 6, Fin 7, Fin 8, Fin 9]\<rparr>]"

definition ms1 :: "model list" where
  "ms1 = [\<lparr>positions = [Fin 1, Fin 2, Fin 3]\<rparr>, \<lparr>positions = [Fin 4, Fin 5, Fin 6]\<rparr>]"


definition quad :: meshData where
  "quad = \<lparr>positions = [Fin 0, Fin 0, Fin 0,  Fin 1, Fin 0, Fin 0,  Fin 1, Fin 1, Fin 0,  Fin 0, Fin 1, Fin 0],
            indices = Some [0, 1, 2, 0, 2, 3]\<rparr>"

definition isFormatError :: "error \<Rightarrow> bool" where
  "isFormatError e = (e = NotValidGLB \<or> e = InvalidGLBFormat)"

definition badMagic :: "byte list" where
  "badMagic = [0x67, 0x6C, 0x54, 0x47]"

definition badTag :: "byte list" where
  "badTag = [0x67, 0x6C, 0x54, 0x46,  2, 0, 0, 0,  20, 0, 0, 0,  0, 0, 0, 0,  0x4A, 0x53, 0x4F, 0x4D]"

definition glbBytes :: "byte list \<Rightarrow> byte list" where
  "glbBytes indexBytes =
     [0x67, 0x6C, 0x54, 0x46,  2, 0, 0, 0,  48, 0, 0, 0,
      4, 0, 0, 0,  0x4A, 0x53, 0x4F, 0x4E,
      0x7B, 0x7D, 0x20, 0x20,
      16, 0, 0, 0,  0x42, 0x49, 0x4E, 0,
      0, 0, 0x80, 0x3F,  0, 0, 0, 0,  0, 0, 0, 0] @ indexBytes"

definition gltfWith :: "nat \<Rightarrow> gltf" where
  "gltfWith ct =
     \<lparr>meshes = Some [[\<lparr>POSITION = Some 0, indicesAccessor = Some 1\<rparr>]],
      accessors = [\<lparr>bufferView = Some 0, byteOffset = None, count = 1, componentType = 5126\<rparr>,
                   \<lparr>bufferView = Some 1, byteOffset = None, count = 1, componentType = ct\<rparr>],
      bufferViews = [\<lparr>viewByteOffset = None\<rparr>, \<lparr>viewByteOffset = Some 12\<rparr>]\<rparr>"


fun isFin :: "num \<Rightarrow> bool" where
  "isFin (Fin r) = True"
| "isFin a = False"

fun val :: "num \<Rightarrow> real" where
  "val (Fin r) = r"
| "val a = 0"

definition finiteBuf :: "num list \<Rightarrow> bool" where
  "finiteBuf ps = list_all isFin ps"




definition store0 :: store where
  "store0 = [[Fin 0, Fin 0, Fin 0,  Fin 1, Fin 0, Fin 0]]"


definition schedOk :: "env \<Rightarrow> sched \<Rightarrow> bool" where
  "schedOk ev s =
     (finiteBuf (position s) \<and> finiteBuf (targetPosition s) \<and> finiteBuf (originalPosition s)
      \<and> length (position s) mod 3 = 0
      \<and> length (targetPosition s) = length (position s)
      \<and> length (originalPosition s) = length (position s)
      \<and> \<not> isViewMorphing s \<and> 0 \<le> morphProgress s
      \<and> list_all (\<lambda>m. finiteBuf (positions m) \<and> length (positions m) = length (position s))
            (scrollModel ev # modelData ev))"


definition env1 :: "string \<Rightarrow> env" where
  "env1 mode =
     \<lparr>viewMode = mode,
      modelData = [\<lparr>positions = [Fin 1, Fin 0, Fin 0], vertexCount = 1\<rparr>,
                   \<lparr>positions = [Fin 0, Fin 1, Fin 0], vertexCount = 1\<rparr>],
      scrollModel = \<lparr>positions = [Fin 0, Fin 0, Fin 1], vertexCount = 1\<rparr>\<rparr>"

definition sched1 :: "real \<Rightarrow> sched" where
  "sched1 p =
     \<lparr>position = [Fin (1 / 2), Fin (1 / 2), Fin 0], targetPosition = [Fin 0, Fin 1, Fin 0],
      originalPosition = [Fin 1, Fin 0, Fin 0], morphProgress = p, ripplePhase = 0,
      frameCount = 10, localCurrentShape = 0, isMorphing = True, lastViewMode = ''objects'',
      viewMorphProgress = 0, isViewMorphing = False\<rparr>"

definition sched2 :: sched where
  "sched2 =
     \<lparr>position = [Fin 0, Fin 0, Fin 0], targetPosition = [Fin 0, Fin 0, Fin 0],
      originalPosition = [Fin 0, Fin 0, Fin 0], morphProgress = 1 / 2, ripplePhase = 0,
      frameCount = 10, localCurrentShape = 0, isMorphing = True, lastViewMode = ''objects'',
      viewMorphProgress = 1 / 2, isViewMorphing = True\<rparr>"

section \<open>Reconciliation of vertex counts\<close>

lemma fold_max_Max: "xs \<noteq> [] \<Longrightarrow> fold max xs (0::nat) = Max (set xs)"
proof -
  assume ne: "xs \<noteq> []"
  have "fold max xs (0::nat) = Max (set (0 # xs))" by (simp only: Max.set_eq_fold)
  also have "\<dots> = Max (set xs)" using ne by (simp add: max_def)
  finally show ?thesis .
qed

lemma copyVertex_length: "length (copyVertex src s d dst) = length dst"
  by (simp add: copyVertex_def)

lemma fill_loop:
  assumes "n * 3 \<le> length src" "n * 3 \<le> length dst"
  shows "length (fold (\<lambda>i. copyVertex src (i * 3) (i * 3)) [0..<n] dst) = length dst
       \<and> (\<forall>j < length dst. fold (\<lambda>i. copyVertex src (i * 3) (i * 3)) [0..<n] dst ! j
              = (if j < n * 3 then src ! j else dst ! j))"
  using assms
proof (induction n)
  case 0
  then show ?case by simp
next
  case (Suc n)
  let ?e = "fold (\<lambda>i. copyVertex src (i * 3) (i * 3)) [0..<n] dst"
  have ih: "length ?e = length dst" "\<And>j. j < length dst \<Longrightarrow> ?e ! j = (if j < n * 3 then src ! j else dst ! j)"
    using Suc by auto
  have step: "fold (\<lambda>i. copyVertex src (i * 3) (i * 3)) [0..<Suc n] dst = copyVertex src (n * 3) (n * 3) ?e"
    by simp
  show ?case
  proof (intro conjI allI impI)
    show "length (fold (\<lambda>i. copyVertex src (i * 3) (i * 3)) [0..<Suc n] dst) = length dst"
      by (simp add: copyVertex_length ih)
  next
    fix j assume j: "j < length dst"
    have "n * 3 + 2 < length src" "n * 3 + 2 < length dst" using Suc.prems by auto
    then show "fold (\<lambda>i. copyVertex src (i * 3) (i * 3)) [0..<Suc n] dst ! j
        = (if j < Suc n * 3 then src ! j else dst ! j)"
      unfolding step using j ih
      by (auto simp: copyVertex_def rd_def nth_list_update)
  qed
qed

lemma padVertex_length: "length (padVertex src c i dst) = length dst"
  by (simp add: padVertex_def copyVertex_def)

lemma pad_loop:
  assumes "0 < c" "c * 3 \<le> length src" "c \<le> n" "n * 3 \<le> length dst"
  shows "length (fold (padVertex src c) [c..<n] dst) = length dst
       \<and> (\<forall>j < length dst. fold (padVertex src c) [c..<n] dst ! j
              = (if c * 3 \<le> j \<and> j < n * 3 then src ! ((j div 3 mod c) * 3 + j mod 3) else dst ! j))"
  using assms(3,4)
proof (induction n)
  case 0
  then show ?case by simp
next
  case (Suc n)
  show ?case
  proof (cases "c = Suc n")
    case True
    then show ?thesis by auto
  next
    case False
    with Suc.prems have cn: "c \<le> n" by simp
    let ?e = "fold (padVertex src c) [c..<n] dst"
    have ih: "length ?e = length dst"
      "\<And>j. j < length dst \<Longrightarrow> ?e ! j
          = (if c * 3 \<le> j \<and> j < n * 3 then src ! ((j div 3 mod c) * 3 + j mod 3) else dst ! j)"
      using Suc.IH cn Suc.prems by auto
    have step: "fold (padVertex src c) [c..<Suc n] dst = padVertex src c n ?e"
      using cn by simp
    have rng: "n * 3 + 2 < length dst" using Suc.prems by auto
    have m: "n mod c < c" using assms(1) by simp
    then have src_rng: "(n mod c) * 3 + 2 < length src" using assms(2) by auto
    show ?thesis
    proof (intro conjI allI impI)
      show "length (fold (padVertex src c) [c..<Suc n] dst) = length dst"
        unfolding step by (simp add: padVertex_length ih)
    next
      fix j assume j: "j < length dst"
      consider "j = n * 3" | "j = n * 3 + 1" | "j = n * 3 + 2" | "j < n * 3" | "n * 3 + 2 < j"
        by linarith
      then show "fold (padVertex src c) [c..<Suc n] dst ! j
          = (if c * 3 \<le> j \<and> j < Suc n * 3 then src ! ((j div 3 mod c) * 3 + j mod 3) else dst ! j)"
      proof cases
        case 1
        then show ?thesis unfolding step using j ih rng src_rng assms(1) cn
          by (simp add: padVertex_def copyVertex_def rd_def)
      next
        case 2
        then have "j div 3 = n" "j mod 3 = 1" by presburger+
        then show ?thesis unfolding step using 2 j ih rng src_rng assms(1) cn
          by (simp add: padVertex_def copyVertex_def rd_def)
      next
        case 3
        then have "j div 3 = n" "j mod 3 = 2" by presburger+
        then show ?thesis unfolding step using 3 j ih rng src_rng assms(1) cn
          by (simp add: padVertex_def copyVertex_def rd_def)
      next
        case 4
        then show ?thesis unfolding step using j ih rng assms(1)
          by (simp add: padVertex_def copyVertex_def)
      next
        case 5
        then show ?thesis unfolding step using j ih rng assms(1)
          by (simp add: padVertex_def copyVertex_def)
      qed
    qed
  qed
qed

lemma expandModel_positions:
  assumes len: "length (positions m) = c * 3" and c: "0 < c" and le: "c \<le> M"
  shows "length (positions (expandModel M m)) = M * 3"
    and "j < M * 3 \<Longrightarrow> positions (expandModel M m) ! j
          = (if j < c * 3 then positions m ! j else positions m ! ((j div 3 mod c) * 3 + j mod 3))"
    and "vertexCount (expandModel M m) = c"
proof -
  have cc: "length (positions m) div 3 = c" using len by simp
  let ?z = "replicate (M * 3) (Fin 0)"
  let ?f = "fold (\<lambda>i. copyVertex (positions m) (i * 3) (i * 3)) [0..<c] ?z"
  let ?p = "fold (padVertex (positions m) c) [c..<M] ?f"
  have f: "length ?f = M * 3" "\<And>j. j < M * 3 \<Longrightarrow> ?f ! j = (if j < c * 3 then positions m ! j else ?z ! j)"
    using fill_loop [of c "positions m" ?z] len le by auto
  have p: "length ?p = M * 3"
    "\<And>j. j < M * 3 \<Longrightarrow> ?p ! j = (if c * 3 \<le> j \<and> j < M * 3
         then positions m ! ((j div 3 mod c) * 3 + j mod 3) else ?f ! j)"
    using pad_loop [of c "positions m" M ?f] len le c f(1) by auto
  show "length (positions (expandModel M m)) = M * 3"
    using p(1) len by (auto simp: expandModel_def cc Let_def)
  show "vertexCount (expandModel M m) = c"
    by (auto simp: expandModel_def cc Let_def)
  show "j < M * 3 \<Longrightarrow> positions (expandModel M m) ! j
          = (if j < c * 3 then positions m ! j else positions m ! ((j div 3 mod c) * 3 + j mod 3))"
    using p(2) f(2) len by (auto simp: expandModel_def cc Let_def)
qed

lemma maxVertices_eq:
  "models \<noteq> [] \<Longrightarrow> fold max (map (\<lambda>m. length (positions m) div 3) models) 0 = maxVertexCount models"
  using fold_max_Max [of "map (\<lambda>m. length (positions m) div 3) models"]
  by (simp add: maxVertexCount_def)

lemma count_le_max:
  "m \<in> set models \<Longrightarrow> length (positions m) div 3 \<le> maxVertexCount models"
  by (simp add: maxVertexCount_def)

lemma fold_keeps_length:
  "(\<And>i d. length (f i d) = length d) \<Longrightarrow> length (fold f xs dst) = length dst"
  by (induction xs arbitrary: dst) simp_all

lemma expandModel_length:
  "length (positions (expandModel M m))
     = (if length (positions m) div 3 = M then length (positions m) else M * 3)"
  by (simp add: expandModel_def Let_def fold_keeps_length copyVertex_length padVertex_length)

lemma expandModel_vertexCount:
  "vertexCount (expandModel M m) = length (positions m) div 3"
  by (simp add: expandModel_def Let_def)

lemma expandModel_same:
  "length (positions m) div 3 = M \<Longrightarrow> positions (expandModel M m) = positions m"
  by (simp add: expandModel_def Let_def)

lemma expand_nth:
  "k < length models \<Longrightarrow>
     expandToMaxVertices models ! k = expandModel (maxVertexCount models) (models ! k)"
proof -
  assume k: "k < length models"
  then have "models \<noteq> []" by auto
  then show ?thesis using k by (simp add: expandToMaxVertices_def maxVertices_eq)
qed

lemma vertexOf_eqI:
  "(\<And>t. t < 3 \<Longrightarrow> rd a (i * 3 + t) = rd b (j * 3 + t)) \<Longrightarrow> vertexOf a i = vertexOf b j"
proof -
  assume h: "\<And>t. t < 3 \<Longrightarrow> rd a (i * 3 + t) = rd b (j * 3 + t)"
  from h [of 0] h [of 1] h [of 2] show ?thesis by (simp add: vertexOf_def)
qed

text \<open>
  Claim C1. The meshes are flat position arrays holding at least one vertex (a length
  that is a positive multiple of 3). \<open>expandToMaxVertices\<close> returns one mesh per input; each
  returned array holds as many vertices as the largest input; its first vertices, up to the
  input's own count, are the input's vertices unchanged; and every later vertex \<open>i\<close> equals
  the returned vertex \<open>i mod originalCount\<close>.
\<close>

theorem expandToMaxVertices_reconciles:
  assumes wf: "\<forall>m \<in> set models. length (positions m) mod 3 = 0 \<and> 0 < length (positions m)"
      and k: "k < length models"
  shows "length (expandToMaxVertices models) = length models
       \<and> length (positions (expandToMaxVertices models ! k)) = maxVertexCount models * 3
       \<and> (\<forall>i < length (positions (models ! k)) div 3.
             vertexOf (positions (expandToMaxVertices models ! k)) i = vertexOf (positions (models ! k)) i)
       \<and> (\<forall>i. length (positions (models ! k)) div 3 \<le> i \<and> i < maxVertexCount models \<longrightarrow>
             vertexOf (positions (expandToMaxVertices models ! k)) i
               = vertexOf (positions (expandToMaxVertices models ! k))
                   (i mod (length (positions (models ! k)) div 3)))"
proof -
  let ?m = "models ! k"
  let ?M = "maxVertexCount models"
  let ?c = "length (positions ?m) div 3"
  let ?out = "positions (expandModel ?M ?m)"
  have mem: "?m \<in> set models" using k by simp
  have wfm: "length (positions ?m) mod 3 = 0" "0 < length (positions ?m)"
    using wf mem by auto
  have len: "length (positions ?m) = ?c * 3" using wfm(1) by auto
  have c: "0 < ?c" using wfm by presburger
  have le: "?c \<le> ?M" using mem by (rule count_le_max)
  note E = expandModel_positions [OF len c le]
  have out_len: "length ?out = ?M * 3" by (rule E(1))
  have out_nth: "\<And>j. j < ?M * 3 \<Longrightarrow> ?out ! j
      = (if j < ?c * 3 then positions ?m ! j else positions ?m ! ((j div 3 mod ?c) * 3 + j mod 3))"
    by (rule E(2))
  have first: "vertexOf ?out i = vertexOf (positions ?m) i" if i: "i < ?c" for i
  proof (rule vertexOf_eqI)
    fix t :: nat assume t: "t < 3"
    have "i * 3 + t < ?c * 3" using i t by auto
    moreover have "i * 3 + t < ?M * 3" using i t le by auto
    ultimately show "rd ?out (i * 3 + t) = rd (positions ?m) (i * 3 + t)"
      using out_nth [of "i * 3 + t"] out_len len by (simp add: rd_def)
  qed
  have cyc: "vertexOf ?out i = vertexOf ?out (i mod ?c)" if i: "?c \<le> i" "i < ?M" for i
  proof (rule vertexOf_eqI)
    fix t :: nat assume t: "t < 3"
    have r: "i mod ?c < ?c" using c by simp
    have a: "i * 3 + t < ?M * 3" "\<not> i * 3 + t < ?c * 3" using i t by auto
    have b: "(i mod ?c) * 3 + t < ?c * 3" "(i mod ?c) * 3 + t < ?M * 3" using r t le by auto
    have d: "(i * 3 + t) div 3 = i" "(i * 3 + t) mod 3 = t" using t by auto
    have "rd ?out (i * 3 + t) = positions ?m ! ((i mod ?c) * 3 + t)"
      using out_nth [OF a(1)] a out_len d by (simp add: rd_def)
    also have "\<dots> = rd ?out ((i mod ?c) * 3 + t)"
      using out_nth [OF b(2)] b out_len by (simp add: rd_def)
    finally show "rd ?out (i * 3 + t) = rd ?out ((i mod ?c) * 3 + t)" .
  qed
  show ?thesis
    unfolding expand_nth [OF k]
    using out_len first cyc by (simp add: expandToMaxVertices_def)
qed

text \<open>The theorem at a one-vertex mesh reconciled with a two-vertex mesh.\<close>

theorem expandToMaxVertices_reconciles_witness:
  "length (expandToMaxVertices ms0) = 2
   \<and> length (positions (expandToMaxVertices ms0 ! 0)) = 6
   \<and> vertexOf (positions (expandToMaxVertices ms0 ! 0)) 0 = (Fin 1, Fin 2, Fin 3)
   \<and> vertexOf (positions (expandToMaxVertices ms0 ! 0)) 1
        = vertexOf (positions (expandToMaxVertices ms0 ! 0)) 0"
proof -
  have h1: "\<forall>m \<in> set ms0. length (positions m) mod 3 = 0 \<and> 0 < length (positions m)"
    by (simp add: ms0_def)
  have h2: "(0::nat) < length ms0" by (simp add: ms0_def)
  have mx: "maxVertexCount ms0 = 2" by (simp add: maxVertexCount_def ms0_def)
  have c0: "length (positions (ms0 ! 0)) div 3 = 1" by (simp add: ms0_def)
  have v0: "vertexOf (positions (ms0 ! 0)) 0 = (Fin 1, Fin 2, Fin 3)"
    by (simp add: ms0_def vertexOf_def rd_def)
  note T = expandToMaxVertices_reconciles [OF h1 h2, unfolded mx c0]
  from T have len: "length (expandToMaxVertices ms0) = length ms0"
    and len0: "length (positions (expandToMaxVertices ms0 ! 0)) = 2 * 3"
    and fst: "\<forall>i<1. vertexOf (positions (expandToMaxVertices ms0 ! 0)) i = vertexOf (positions (ms0 ! 0)) i"
    and cyc: "\<forall>i. 1 \<le> i \<and> i < 2 \<longrightarrow>
             vertexOf (positions (expandToMaxVertices ms0 ! 0)) i
               = vertexOf (positions (expandToMaxVertices ms0 ! 0)) (i mod 1)"
    by blast+
  from fst v0 have a: "vertexOf (positions (expandToMaxVertices ms0 ! 0)) 0 = (Fin 1, Fin 2, Fin 3)"
    by simp
  from cyc [rule_format, of 1] have b: "vertexOf (positions (expandToMaxVertices ms0 ! 0)) 1
        = vertexOf (positions (expandToMaxVertices ms0 ! 0)) 0"
    by simp
  from len len0 a b show ?thesis by (simp add: ms0_def)
qed

text \<open>
  Claim C5 as stated asks \<open>length positions = vertexCount * 3\<close>. The field \<open>vertexCount\<close> is
  assigned \<open>currentCount\<close>, the mesh's own count before padding, in both branches; a padded
  mesh therefore has more positions than \<open>vertexCount * 3\<close>.
\<close>

theorem expandToMaxVertices_vertexCount_counterexample:
  "length (positions (expandToMaxVertices ms0 ! 0)) \<noteq> vertexCount (expandToMaxVertices ms0 ! 0) * 3"
  by (simp add: expandToMaxVertices_def expandModel_def ms0_def Let_def
        copyVertex_def padVertex_def)

text \<open>
  Claim C5, amended. For every mesh returned by \<open>expandToMaxVertices\<close> the positions array
  holds \<open>3 * maxVertexCount\<close> numbers, the field \<open>vertexCount\<close> is the vertex count the mesh
  had on input, and \<open>vertexCount * 3 \<le> length positions\<close>: padding never truncates.
\<close>

theorem expandToMaxVertices_never_truncates:
  assumes wf: "\<forall>m \<in> set models. length (positions m) mod 3 = 0"
      and k: "k < length models"
  shows "length (positions (expandToMaxVertices models ! k)) = maxVertexCount models * 3
       \<and> vertexCount (expandToMaxVertices models ! k) = length (positions (models ! k)) div 3
       \<and> vertexCount (expandToMaxVertices models ! k) * 3
           \<le> length (positions (expandToMaxVertices models ! k))"
proof -
  have mem: "models ! k \<in> set models" using k by simp
  then have len: "length (positions (models ! k)) = (length (positions (models ! k)) div 3) * 3"
    using wf by auto
  have le: "length (positions (models ! k)) div 3 \<le> maxVertexCount models"
    using mem by (rule count_le_max)
  show ?thesis
    unfolding expand_nth [OF k] expandModel_length expandModel_vertexCount
    using len le by auto
qed

text \<open>The amended statement at the padded one-vertex mesh.\<close>

theorem expandToMaxVertices_never_truncates_witness:
  "length (positions (expandToMaxVertices ms0 ! 0)) = 6
   \<and> vertexCount (expandToMaxVertices ms0 ! 0) = 1
   \<and> vertexCount (expandToMaxVertices ms0 ! 0) * 3 \<le> length (positions (expandToMaxVertices ms0 ! 0))"
proof -
  have h1: "\<forall>m \<in> set ms0. length (positions m) mod 3 = 0" by (simp add: ms0_def)
  have h2: "(0::nat) < length ms0" by (simp add: ms0_def)
  have mx: "maxVertexCount ms0 = 2" by (simp add: maxVertexCount_def ms0_def)
  have c0: "length (positions (ms0 ! 0)) div 3 = 1" by (simp add: ms0_def)
  from expandToMaxVertices_never_truncates [OF h1 h2, unfolded mx c0] show ?thesis by simp
qed

text \<open>
  Claim C9. When all meshes share one length (hence one vertex count),
  \<open>expandToMaxVertices\<close> returns every positions array unchanged.
\<close>

theorem expandToMaxVertices_idempotent:
  assumes same: "\<forall>m \<in> set models. length (positions m) = n"
  shows "map positions (expandToMaxVertices models) = map positions models"
proof (cases "models = []")
  case True
  then show ?thesis by (simp add: expandToMaxVertices_def)
next
  case False
  obtain m0 where m0: "m0 \<in> set models" using False by (cases models) auto
  have "(\<lambda>m. length (positions m) div 3) ` set models = {n div 3}"
    using same m0 by force
  then have mx: "maxVertexCount models = n div 3" by (simp add: maxVertexCount_def)
  have "\<And>m. m \<in> set models \<Longrightarrow> positions (expandModel (n div 3) m) = positions m"
    using same by (simp add: expandModel_same)
  then show ?thesis
    using False by (simp add: expandToMaxVertices_def maxVertices_eq mx)
qed

text \<open>Two one-vertex meshes come back as they went in.\<close>

theorem expandToMaxVertices_idempotent_witness:
  "map positions (expandToMaxVertices ms1) = [[Fin 1, Fin 2, Fin 3], [Fin 4, Fin 5, Fin 6]]"
proof -
  have h: "\<forall>m \<in> set ms1. length (positions m) = 3" by (simp add: ms1_def)
  from expandToMaxVertices_idempotent [OF h] show ?thesis by (simp add: ms1_def)
qed

section \<open>De-indexing yields one triple per index\<close>

lemma pushVertex_loop:
  "n \<le> length ix \<Longrightarrow>
     fold (pushVertex ps ix) [0..<n] acc
       = acc @ concat (map (\<lambda>k. [rd ps (k * 3), rd ps (k * 3 + 1), rd ps (k * 3 + 2)]) (take n ix))"
proof (induction n)
  case 0
  then show ?case by simp
next
  case (Suc n)
  then have n: "n < length ix" by simp
  then show ?case
    using Suc.IH by (simp add: take_Suc_conv_app_nth pushVertex_def Let_def)
qed

lemma pushMesh_indexed:
  "indices md = Some ix \<Longrightarrow>
     pushMesh md acc
       = acc @ concat (map (\<lambda>k. [rd (positions md) (k * 3), rd (positions md) (k * 3 + 1),
                                  rd (positions md) (k * 3 + 2)]) ix)"
  by (simp add: pushMesh_def pushVertex_loop)

lemma concat_triples_length:
  "length (concat (map (\<lambda>k. [f k, g k, h k]) xs)) = length xs * 3"
  by (induction xs) simp_all

lemma concat_triples_nth:
  "i < length xs \<Longrightarrow> t < 3 \<Longrightarrow>
     concat (map (\<lambda>k. [f k 0, f k 1, f k 2]) xs) ! (i * 3 + t) = f (xs ! i) t"
proof (induction xs arbitrary: i)
  case Nil
  then show ?case by simp
next
  case (Cons x xs)
  show ?case
  proof (cases i)
    case 0
    from Cons.prems(2) consider "t = 0" | "t = 1" | "t = 2" by linarith
    then show ?thesis using 0 by cases simp_all
  next
    case (Suc j)
    then have j: "j < length xs" using Cons.prems by simp
    have "Suc j * 3 + t = 3 + (j * 3 + t)" by simp
    then show ?thesis using Suc Cons.IH [OF j Cons.prems(2)]
      by (simp add: nth_append del: mult_Suc)
  qed
qed

text \<open>
  Claim C7. For a mesh with an index array whose entries are all in range, de-indexing (the
  loop of \<open>init\<close> that fills \<open>allPositions\<close>) yields one triple per index, in index order:
  triple \<open>i\<close> of the output is triple \<open>indices[i]\<close> of the mesh's positions.
\<close>

theorem deindex_expands_indices:
  assumes ix: "indices md = Some ix"
      and rng: "\<forall>k \<in> set ix. k < length (positions md) div 3"
  shows "length (combineMeshes [md]) = length ix * 3
       \<and> (\<forall>i < length ix. \<forall>t < 3.
             combineMeshes [md] ! (i * 3 + t) = positions md ! ((ix ! i) * 3 + t))"
proof -
  let ?f = "\<lambda>k t. rd (positions md) (k * 3 + t)"
  have eq: "combineMeshes [md] = concat (map (\<lambda>k. [?f k 0, ?f k 1, ?f k 2]) ix)"
    using pushMesh_indexed [OF ix, of "[]"] by (simp add: combineMeshes_def)
  have len: "length (combineMeshes [md]) = length ix * 3"
    unfolding eq by (rule concat_triples_length)
  have nth: "combineMeshes [md] ! (i * 3 + t) = positions md ! ((ix ! i) * 3 + t)"
    if i: "i < length ix" and t: "t < 3" for i t
  proof -
    have "ix ! i < length (positions md) div 3" using rng i by simp
    then have "(ix ! i) * 3 + t < length (positions md)" using t by auto
    then show ?thesis
      unfolding eq using concat_triples_nth [of i ix t ?f, OF i t] by (simp add: rd_def)
  qed
  from len nth show ?thesis by blast
qed

text \<open>Two triangles sharing four vertices through six indices give six triples.\<close>

theorem deindex_expands_indices_witness:
  "length (combineMeshes [quad]) = 6 * 3
   \<and> combineMeshes [quad] ! (4 * 3 + 0) = Fin 1
   \<and> combineMeshes [quad] ! (5 * 3 + 1) = Fin 1"
proof -
  have ix: "indices quad = Some [0, 1, 2, 0, 2, 3]" by (simp add: quad_def)
  have rng: "\<forall>k \<in> set [0, 1, 2, 0, 2, 3]. k < length (positions quad) div 3"
    by (simp add: quad_def)
  note T = deindex_expands_indices [OF ix rng]
  from T have len: "length (combineMeshes [quad]) = length [0::nat, 1, 2, 0, 2, 3] * 3" by blast
  from T have nth: "\<And>i t. i < length [0::nat, 1, 2, 0, 2, 3] \<Longrightarrow> t < 3 \<Longrightarrow>
      combineMeshes [quad] ! (i * 3 + t) = positions quad ! (([0, 1, 2, 0, 2, 3] ! i) * 3 + t)"
    by blast
  have a: "combineMeshes [quad] ! (4 * 3 + 0) = Fin 1"
    using nth [of 4 0] by (simp add: quad_def)
  have b: "combineMeshes [quad] ! (5 * 3 + 1) = Fin 1"
    using nth [of 5 1] by (simp add: quad_def)
  from len a b show ?thesis by simp
qed

section \<open>Header checks and index decoding of loadGLB\<close>

lemma getUint32_Inr:
  "off + 4 \<le> length buf \<Longrightarrow> \<exists>w. getUint32 buf off = Inr w"
  by (simp add: getUint32_def)

lemma loadGLB_bad_magic:
  assumes "getUint32 buf 0 = Inr magic" "magic \<noteq> 0x46546C67"
  shows "loadGLB parseJSON buf = Inl NotValidGLB"
  using assms by (simp add: loadGLB_def bindE_def)

lemma loadGLB_bad_tag:
  assumes "getUint32 buf 0 = Inr 0x46546C67" "getUint32 buf 12 = Inr len"
    "getUint32 buf 16 = Inr tag" "tag \<noteq> 0x4E4F534A"
  shows "loadGLB parseJSON buf = Inl InvalidGLBFormat"
  using assms by (simp add: loadGLB_def bindE_def)

text \<open>
  Claim C6. A buffer whose first four bytes, read little-endian, are not \<open>0x46546C67\<close>, or
  whose first chunk's type tag (offset 16) is not \<open>0x4E4F534A\<close>, makes \<open>loadGLB\<close> throw one
  of its two format errors; the result is an error, so no mesh is returned.
\<close>

theorem loadGLB_rejects_bad_header:
  assumes "(4 \<le> length buf \<and> getUint32 buf 0 \<noteq> Inr 0x46546C67)
           \<or> (20 \<le> length buf \<and> getUint32 buf 16 \<noteq> Inr 0x4E4F534A)"
  shows "\<exists>e. loadGLB parseJSON buf = Inl e \<and> isFormatError e"
  using assms
proof
  assume a: "4 \<le> length buf \<and> getUint32 buf 0 \<noteq> Inr 0x46546C67"
  then obtain magic where "getUint32 buf 0 = Inr magic" "magic \<noteq> 0x46546C67"
    using getUint32_Inr [of 0 buf] by auto
  then have "loadGLB parseJSON buf = Inl NotValidGLB" by (rule loadGLB_bad_magic)
  then show ?thesis by (simp add: isFormatError_def)
next
  assume b: "20 \<le> length buf \<and> getUint32 buf 16 \<noteq> Inr 0x4E4F534A"
  then obtain magic len tag where r: "getUint32 buf 0 = Inr magic" "getUint32 buf 12 = Inr len"
      "getUint32 buf 16 = Inr tag" and tag: "tag \<noteq> 0x4E4F534A"
    using getUint32_Inr [of 0 buf] getUint32_Inr [of 12 buf] getUint32_Inr [of 16 buf] by auto
  show ?thesis
  proof (cases "magic = 0x46546C67")
    case True
    with r tag have "loadGLB parseJSON buf = Inl InvalidGLBFormat"
      by (simp add: loadGLB_bad_tag)
    then show ?thesis by (simp add: isFormatError_def)
  next
    case False
    with r have "loadGLB parseJSON buf = Inl NotValidGLB" by (simp add: loadGLB_bad_magic)
    then show ?thesis by (simp add: isFormatError_def)
  qed
qed

text \<open>A wrong magic number, and a right magic number followed by a wrong chunk tag.\<close>

theorem loadGLB_rejects_bad_header_witness:
  "(\<exists>e. loadGLB (\<lambda>j. None) badMagic = Inl e \<and> isFormatError e)
   \<and> (\<exists>e. loadGLB (\<lambda>j. None) badTag = Inl e \<and> isFormatError e)"
proof -
  have h1: "(4 \<le> length badMagic \<and> getUint32 badMagic 0 \<noteq> Inr 0x46546C67)
           \<or> (20 \<le> length badMagic \<and> getUint32 badMagic 16 \<noteq> Inr 0x4E4F534A)"
    by (simp add: badMagic_def getUint32_def)
  have h2: "(4 \<le> length badTag \<and> getUint32 badTag 0 \<noteq> Inr 0x46546C67)
           \<or> (20 \<le> length badTag \<and> getUint32 badTag 16 \<noteq> Inr 0x4E4F534A)"
    by (simp add: badTag_def getUint32_def)
  from loadGLB_rejects_bad_header [OF h1] loadGLB_rejects_bad_header [OF h2]
  show ?thesis by blast
qed

lemma decodeIndices_other:
  assumes "indicesAccessor p = Some ia" "ia < length (accessors g)"
    "bufferView (accessors g ! ia) = Some bv" "bv < length (bufferViews g)"
    "componentType (accessors g ! ia) \<noteq> 5123" "componentType (accessors g ! ia) \<noteq> 5125"
  shows "decodeIndices g buf off p = Inr None"
  using assms by (simp add: decodeIndices_def getEntry_def bindE_def Let_def)

lemma decodeIndices_none:
  "decodeIndices g buf off (p\<lparr>indicesAccessor := None\<rparr>) = Inr None"
  by (simp add: decodeIndices_def)

text \<open>
  Claim C4 as stated asks for a failure on every component type other than 5123 and 5125.
  The code has no such branch: \<open>indices\<close> stays \<open>null\<close>. A valid container whose index accessor
  has component type 5121 (unsigned byte) loads, as a non-indexed mesh.
\<close>

theorem loadGLB_unsigned_byte_counterexample:
  "loadGLB (\<lambda>j. Some (gltfWith 5121)) (glbBytes [0, 0, 0, 0])
     = Inr [\<lparr>positions = [Fin 1, Fin 0, Fin 0], indices = None\<rparr>]"
  by (simp add: loadGLB_def bindE_def getUint32_def Uint8Array_def glbBytes_def gltfWith_def
        extractPrimitive_def decodeIndices_def getEntry_def orZero_def Float32Array_def
        decodeFloat32_def Let_def signed_inf_def upt_rec)


lemma Uint32Array_in_range:
  "pos mod 4 = 0 \<Longrightarrow> pos + n * 4 \<le> length buf \<Longrightarrow>
     Uint32Array buf pos n
       = Inr (map (\<lambda>k. unat (buf ! (pos + k * 4)) + 256 * unat (buf ! (pos + k * 4 + 1))
                        + 65536 * unat (buf ! (pos + k * 4 + 2))
                        + 16777216 * unat (buf ! (pos + k * 4 + 3))) [0..<n])"
  by (auto simp: Uint32Array_def getUint32_def)

lemma extractPrimitive_cong_indices:
  "POSITION p = POSITION q \<Longrightarrow> decodeIndices g buf off p = decodeIndices g buf off q \<Longrightarrow>
     extractPrimitive g buf off p = extractPrimitive g buf off q"
  by (simp add: extractPrimitive_def)

text \<open>
  Claim C4, amended. For a primitive whose index accessor and buffer view resolve:
  component type 5123 decodes \<open>count\<close> little-endian unsigned 16-bit integers, component type
  5125 decodes \<open>count\<close> little-endian unsigned 32-bit integers, and for every other
  component type \<open>indices\<close> stays \<open>null\<close> and the primitive is extracted exactly as if it
  declared no index accessor: no error is raised for it.
\<close>

theorem index_componentType_decoding:
  assumes ia: "indicesAccessor p = Some ia" "ia < length (accessors g)"
      and bv: "bufferView (accessors g ! ia) = Some bv" "bv < length (bufferViews g)"
      and pos: "pos = off + (orZero (viewByteOffset (bufferViews g ! bv))
                          + orZero (byteOffset (accessors g ! ia)))"
      and n: "n = count (accessors g ! ia)"
  shows "(componentType (accessors g ! ia) = 5123 \<and> pos mod 2 = 0 \<and> pos + n * 2 \<le> length buf \<longrightarrow>
            decodeIndices g buf off p
              = Inr (Some (map (\<lambda>k. unat (buf ! (pos + k * 2)) + 256 * unat (buf ! (pos + k * 2 + 1)))
                           [0..<n])))
       \<and> (componentType (accessors g ! ia) = 5125 \<and> pos mod 4 = 0 \<and> pos + n * 4 \<le> length buf \<longrightarrow>
            decodeIndices g buf off p
              = Inr (Some (map (\<lambda>k. unat (buf ! (pos + k * 4)) + 256 * unat (buf ! (pos + k * 4 + 1))
                                     + 65536 * unat (buf ! (pos + k * 4 + 2))
                                     + 16777216 * unat (buf ! (pos + k * 4 + 3))) [0..<n])))
       \<and> (componentType (accessors g ! ia) \<noteq> 5123 \<and> componentType (accessors g ! ia) \<noteq> 5125 \<longrightarrow>
            decodeIndices g buf off p = Inr None
            \<and> extractPrimitive g buf off p = extractPrimitive g buf off (p\<lparr>indicesAccessor := None\<rparr>))"
proof (intro conjI impI)
  assume c: "componentType (accessors g ! ia) = 5123 \<and> pos mod 2 = 0 \<and> pos + n * 2 \<le> length buf"
  then show "decodeIndices g buf off p
      = Inr (Some (map (\<lambda>k. unat (buf ! (pos + k * 2)) + 256 * unat (buf ! (pos + k * 2 + 1))) [0..<n]))"
    using ia bv pos n
    by (simp add: decodeIndices_def getEntry_def bindE_def Let_def Uint16Array_def getUint16_def)
next
  assume c: "componentType (accessors g ! ia) = 5125 \<and> pos mod 4 = 0 \<and> pos + n * 4 \<le> length buf"
  then have "Uint32Array buf pos n
       = Inr (map (\<lambda>k. unat (buf ! (pos + k * 4)) + 256 * unat (buf ! (pos + k * 4 + 1))
                        + 65536 * unat (buf ! (pos + k * 4 + 2))
                        + 16777216 * unat (buf ! (pos + k * 4 + 3))) [0..<n])"
    by (simp add: Uint32Array_in_range)
  then show "decodeIndices g buf off p
      = Inr (Some (map (\<lambda>k. unat (buf ! (pos + k * 4)) + 256 * unat (buf ! (pos + k * 4 + 1))
                             + 65536 * unat (buf ! (pos + k * 4 + 2))
                             + 16777216 * unat (buf ! (pos + k * 4 + 3))) [0..<n]))"
    using ia bv pos n c
    by (simp add: decodeIndices_def getEntry_def bindE_def Let_def)
next
  assume c: "componentType (accessors g ! ia) \<noteq> 5123 \<and> componentType (accessors g ! ia) \<noteq> 5125"
  then show none: "decodeIndices g buf off p = Inr None"
    using ia bv by (simp add: decodeIndices_other)
  show "extractPrimitive g buf off p = extractPrimitive g buf off (p\<lparr>indicesAccessor := None\<rparr>)"
    by (rule extractPrimitive_cong_indices) (simp_all add: none decodeIndices_none)
qed

text \<open>
  One container with a 16-bit index \<open>0x0102\<close>, one with a 32-bit index, one with an unsigned
  byte index.
\<close>

theorem index_componentType_decoding_witness:
  "decodeIndices (gltfWith 5123) (glbBytes [2, 1, 0, 0]) 32 \<lparr>POSITION = Some 0, indicesAccessor = Some 1\<rparr>
     = Inr (Some [258])
   \<and> decodeIndices (gltfWith 5125) (glbBytes [2, 1, 0, 0]) 32 \<lparr>POSITION = Some 0, indicesAccessor = Some 1\<rparr>
     = Inr (Some [258])
   \<and> decodeIndices (gltfWith 5121) (glbBytes [0, 0, 0, 0]) 32 \<lparr>POSITION = Some 0, indicesAccessor = Some 1\<rparr>
     = Inr None"
proof -
  let ?p = "\<lparr>POSITION = Some 0, indicesAccessor = Some 1\<rparr>"
  have ia: "indicesAccessor ?p = Some 1" "1 < length (accessors (gltfWith ct))" for ct
    by (simp_all add: gltfWith_def)
  have bv: "bufferView (accessors (gltfWith ct) ! 1) = Some 1" "1 < length (bufferViews (gltfWith ct))" for ct
    by (simp_all add: gltfWith_def)
  have pos: "44 = 32 + (orZero (viewByteOffset (bufferViews (gltfWith ct) ! 1))
                      + orZero (byteOffset (accessors (gltfWith ct) ! 1)))" for ct
    by (simp add: gltfWith_def orZero_def)
  have n: "1 = count (accessors (gltfWith ct) ! 1)" for ct
    by (simp add: gltfWith_def)
  have ct: "componentType (accessors (gltfWith ct) ! 1) = ct" for ct
    by (simp add: gltfWith_def)
  note T = index_componentType_decoding [OF ia bv pos n, unfolded ct]
  have a: "decodeIndices (gltfWith 5123) (glbBytes [2, 1, 0, 0]) 32 ?p = Inr (Some [258])"
    using T [of 5123 "glbBytes [2, 1, 0, 0]"] by (simp add: glbBytes_def)
  have b: "decodeIndices (gltfWith 5125) (glbBytes [2, 1, 0, 0]) 32 ?p = Inr (Some [258])"
    using T [of 5125 "glbBytes [2, 1, 0, 0]"] by (simp add: glbBytes_def)
  have c: "decodeIndices (gltfWith 5121) (glbBytes [0, 0, 0, 0]) 32 ?p = Inr None"
    using T [of 5121 "glbBytes [0, 0, 0, 0]"] by simp
  from a b c show ?thesis by simp
qed

section \<open>Loops that write whole vertices\<close>

lemma for3_prefix:
  assumes body: "\<And>k out. body (k * 3) out
          = out[k * 3 := f (k * 3), k * 3 + 1 := f (k * 3 + 1), k * 3 + 2 := f (k * 3 + 2)]"
  shows "length (fold body (map (\<lambda>k. k * 3) [0..<m]) out) = length out
       \<and> (\<forall>j < length out. fold body (map (\<lambda>k. k * 3) [0..<m]) out ! j
              = (if j < m * 3 then f j else out ! j))"
proof (induction m)
  case 0
  then show ?case by simp
next
  case (Suc m)
  let ?r = "fold body (map (\<lambda>k. k * 3) [0..<m]) out"
  have ih: "length ?r = length out"
    "\<And>j. j < length out \<Longrightarrow> ?r ! j = (if j < m * 3 then f j else out ! j)"
    using Suc.IH by auto
  have step: "fold body (map (\<lambda>k. k * 3) [0..<Suc m]) out
      = ?r[m * 3 := f (m * 3), m * 3 + 1 := f (m * 3 + 1), m * 3 + 2 := f (m * 3 + 2)]"
    by (simp add: body)
  show ?case
  proof (intro conjI allI impI)
    show "length (fold body (map (\<lambda>k. k * 3) [0..<Suc m]) out) = length out"
      unfolding step by (simp add: ih)
  next
    fix j assume j: "j < length out"
    consider "j = m * 3" | "j = m * 3 + 1" | "j = m * 3 + 2" | "j < m * 3" | "m * 3 + 2 < j"
      by linarith
    then show "fold body (map (\<lambda>k. k * 3) [0..<Suc m]) out ! j
        = (if j < Suc m * 3 then f j else out ! j)"
      unfolding step using j ih by cases (simp_all add: nth_list_update)
  qed
qed

lemma for3_writes_all:
  assumes body: "\<And>k out. body (k * 3) out
          = out[k * 3 := f (k * 3), k * 3 + 1 := f (k * 3 + 1), k * 3 + 2 := f (k * 3 + 2)]"
  shows "fold body (for3 (length out)) out = map f [0..<length out]"
proof (rule nth_equalityI)
  note P = for3_prefix [of body f "(length out + 2) div 3" out, OF body]
  show "length (fold body (for3 (length out)) out) = length (map f [0..<length out])"
    using P by (simp add: for3_def)
  fix j assume "j < length (fold body (for3 (length out)) out)"
  then have j: "j < length out" using P by (simp add: for3_def)
  then have "j < (length out + 2) div 3 * 3" by presburger
  then show "fold body (for3 (length out)) out ! j = map f [0..<length out] ! j"
    using P j by (simp add: for3_def)
qed

lemma for3_general:
  assumes body: "\<And>k out. body (k * 3) out
          = out[k * 3 := f (k * 3), k * 3 + 1 := f (k * 3 + 1), k * 3 + 2 := f (k * 3 + 2)]"
      and n: "n = length out"
  shows "fold body (for3 n) out = map f [0..<n]"
  unfolding n using body by (rule for3_writes_all)

section \<open>normalizeGeometry writes a fresh array\<close>

lemma normalizeStep_length: "length (normalizeStep ps b sz i out) = length out"
  by (simp add: normalizeStep_def)

lemma normalizeGeometry_length: "length (normalizeGeometry ps sz) = length ps"
  by (simp add: normalizeGeometry_def Let_def fold_keeps_length normalizeStep_length)

lemma store_loop:
  assumes p: "p < length st"
  shows "fold (\<lambda>i s. s[length st := normalizeStep (s ! p) b sz i (s ! length st)]) idxs (st @ [z])
           = st @ [fold (normalizeStep (st ! p) b sz) idxs z]"
proof (induction idxs arbitrary: z)
  case Nil
  then show ?case by simp
next
  case (Cons i idxs)
  have "(st @ [z])[length st := normalizeStep ((st @ [z]) ! p) b sz i ((st @ [z]) ! length st)]
          = st @ [normalizeStep (st ! p) b sz i z]"
    using p by (simp add: nth_append)
  then show ?case using Cons.IH by simp
qed

lemma normalizeGeometry_store_eq:
  "p < length st \<Longrightarrow>
     normalizeGeometry_store st p sz = (st @ [normalizeGeometry (st ! p) sz], length st)"
  by (simp add: normalizeGeometry_store_def normalizeGeometry_def Let_def store_loop)

text \<open>
  Claim C10. Typed arrays live in a store, addressed by index. A call of
  \<open>normalizeGeometry\<close> on the array at address \<open>p\<close> returns an address that was not in use
  before the call, leaves every array that existed before the call (the input among them)
  as it was, and the new array has the input's length; its content is the value computed
  by \<open>normalizeGeometry\<close>.
\<close>

theorem normalizeGeometry_frame:
  assumes p: "p < length st"
  shows "snd (normalizeGeometry_store st p sz) = length st
       \<and> length (fst (normalizeGeometry_store st p sz)) = Suc (length st)
       \<and> (\<forall>a < length st. fst (normalizeGeometry_store st p sz) ! a = st ! a)
       \<and> length (fst (normalizeGeometry_store st p sz) ! snd (normalizeGeometry_store st p sz))
           = length (st ! p)
       \<and> fst (normalizeGeometry_store st p sz) ! snd (normalizeGeometry_store st p sz)
           = normalizeGeometry (st ! p) sz"
  unfolding normalizeGeometry_store_eq [OF p]
  by (simp add: nth_append normalizeGeometry_length)

text \<open>A store holding one array of two vertices.\<close>

theorem normalizeGeometry_frame_witness:
  "snd (normalizeGeometry_store store0 0 (Fin 2)) = 1
   \<and> length (fst (normalizeGeometry_store store0 0 (Fin 2))) = 2
   \<and> fst (normalizeGeometry_store store0 0 (Fin 2)) ! 0 = [Fin 0, Fin 0, Fin 0,  Fin 1, Fin 0, Fin 0]
   \<and> length (fst (normalizeGeometry_store store0 0 (Fin 2)) ! 1) = 6"
proof -
  have p: "0 < length store0" by (simp add: store0_def)
  note T = normalizeGeometry_frame [OF p, of "Fin 2"]
  from T have a: "snd (normalizeGeometry_store store0 0 (Fin 2)) = length store0" by blast
  from T have b: "length (fst (normalizeGeometry_store store0 0 (Fin 2))) = Suc (length store0)" by blast
  from T have "\<forall>a < length store0. fst (normalizeGeometry_store store0 0 (Fin 2)) ! a = store0 ! a"
    by blast
  then have c: "fst (normalizeGeometry_store store0 0 (Fin 2)) ! 0 = store0 ! 0" using p by blast
  from T have d: "length (fst (normalizeGeometry_store store0 0 (Fin 2)) ! snd (normalizeGeometry_store store0 0 (Fin 2)))
           = length (store0 ! 0)" by blast
  from a b c d show ?thesis by (simp add: store0_def)
qed

section \<open>The bounding box of a finite buffer\<close>

lemma rd_fin: "finiteBuf ps \<Longrightarrow> j < length ps \<Longrightarrow> rd ps j = Fin (val (ps ! j))"
proof -
  assume "finiteBuf ps" "j < length ps"
  then have "isFin (ps ! j)" by (simp add: finiteBuf_def list_all_length)
  then show ?thesis using \<open>j < length ps\<close> by (cases "ps ! j") (simp_all add: rd_def)
qed




section \<open>normalizeGeometry fits the box to the target size\<close>






text \<open>
  The size is taken non-negative above. With a negative size the box is mirrored and its
  largest extent is the absolute value of the size.
\<close>

lemma normalizeGeometry_negative_size:
  "normalizeGeometry [Fin 0, Fin 0, Fin 0,  Fin 1, Fin 0, Fin 0] (Fin (- 1))
     = [Fin (1 / 2), Fin 0, Fin 0,  Fin (- (1 / 2)), Fin 0, Fin 0]"
  by (simp add: normalizeGeometry_def boundingBox_def for3_def boundsStep_def rd_def upt_rec
        normalizeStep_def centerX_def centerY_def centerZ_def scale_def js_sub_def Let_def)

text \<open>A buffer of coincident vertices has extent 0 and is mapped to \<open>NaN\<close> throughout.\<close>

lemma normalizeGeometry_degenerate:
  "normalizeGeometry [Fin 1, Fin 1, Fin 1] (Fin 2) = [NaN, NaN, NaN]"
  by (simp add: normalizeGeometry_def boundingBox_def for3_def boundsStep_def rd_def upt_rec
        normalizeStep_def centerX_def centerY_def centerZ_def scale_def js_sub_def Let_def)

section \<open>Interpolation\<close>



lemma finiteBuf_nth: "finiteBuf ps \<Longrightarrow> j < length ps \<Longrightarrow> ps ! j = Fin (val (ps ! j))"
  using rd_fin [of ps j] by (simp add: rd_def)


lemma interpolate_map:
  "interpolate s e
     = map (\<lambda>j. lerp (rd (originalPosition s) j) (rd (targetPosition s) j) e) [0..<length (position s)]"
proof -
  let ?f = "\<lambda>j. lerp (rd (originalPosition s) j) (rd (targetPosition s) j) e"
  have body: "lerpStep (originalPosition s) (targetPosition s) e (k * 3) out
      = out[k * 3 := ?f (k * 3), k * 3 + 1 := ?f (k * 3 + 1), k * 3 + 2 := ?f (k * 3 + 2)]" for k out
    by (simp only: lerpStep_def)
  show ?thesis
    unfolding interpolate_def
    by (rule for3_general [of _ ?f, OF body]) simp
qed

lemma interpolate_length: "length (interpolate s e) = length (position s)"
  by (simp add: interpolate_map)

lemma interpolate_nth:
  assumes "finiteBuf (originalPosition s)" "finiteBuf (targetPosition s)"
    "length (originalPosition s) = length (position s)"
    "length (targetPosition s) = length (position s)" "j < length (position s)"
  shows "interpolate s e ! j
     = Fin (val (originalPosition s ! j)
            + (val (targetPosition s ! j) - val (originalPosition s ! j)) * e)"
  using assms rd_fin [of "originalPosition s" j] rd_fin [of "targetPosition s" j]
  by (simp add: interpolate_map lerp_def js_sub_def)



lemma interpolate_zero:
  assumes "finiteBuf (originalPosition s)" "finiteBuf (targetPosition s)"
    "length (originalPosition s) = length (position s)"
    "length (targetPosition s) = length (position s)"
  shows "interpolate s 0 = originalPosition s"
proof (rule nth_equalityI)
  show "length (interpolate s 0) = length (originalPosition s)"
    using assms by (simp add: interpolate_length)
  fix j assume "j < length (interpolate s 0)"
  then have j: "j < length (position s)" by (simp add: interpolate_length)
  then show "interpolate s 0 ! j = originalPosition s ! j"
    using interpolate_nth [OF assms j, of 0] finiteBuf_nth [OF assms(1), of j] assms(3) by simp
qed

section \<open>The ripple\<close>






lemma rippleStep_fields:
  "morphProgress (rippleStep s) = morphProgress s"
  "targetPosition (rippleStep s) = targetPosition s"
  "originalPosition (rippleStep s) = originalPosition s"
  "isViewMorphing (rippleStep s) = isViewMorphing s"
  "isMorphing (rippleStep s) = isMorphing s"
  "lastViewMode (rippleStep s) = lastViewMode s"
  "viewMorphProgress (rippleStep s) = viewMorphProgress s"
  by (simp_all add: rippleStep_def Let_def)


section \<open>One tick on reconciled buffers\<close>


lemma typedArraySet_same_length:
  "length src = length dst \<Longrightarrow> typedArraySet dst src = Inr src"
  by (simp add: typedArraySet_def)

lemma retarget_ok:
  assumes ok: "schedOk ev s"
      and m: "finiteBuf (positions m)" "length (positions m) = length (position s)"
  shows "retarget s m mode
           = Inr (s\<lparr>morphProgress := 0, isMorphing := True, targetPosition := positions m,
                    originalPosition := position s, lastViewMode := mode\<rparr>)"
  using ok m by (simp add: retarget_def bindE_def typedArraySet_same_length schedOk_def)


lemma scroll_ok:
  "schedOk ev s \<Longrightarrow> finiteBuf (positions (scrollModel ev))
      \<and> length (positions (scrollModel ev)) = length (position s)"
  by (simp add: schedOk_def)



lemma viewStep_idle: "\<not> isViewMorphing s \<Longrightarrow> viewStep s = s"
  by (simp add: viewStep_def)



section \<open>The boundary of a morph\<close>

lemma initSched_ok:
  assumes "finiteBuf (positions m)" "length (positions m) mod 3 = 0"
    "list_all (\<lambda>x. finiteBuf (positions x) \<and> length (positions x) = length (positions m))
       (scrollModel ev # modelData ev)"
  shows "schedOk ev (initSched m)"
  using assms by (simp add: schedOk_def initSched_def)





lemma env1_sched1_ok: "0 \<le> p \<Longrightarrow> schedOk (env1 mode) (sched1 p)"
  by (simp add: schedOk_def env1_def sched1_def finiteBuf_def)


section \<open>A change of view mode\<close>

lemma retarget_fields:
  "retarget x m mode = Inr y \<Longrightarrow> morphProgress y = 0 \<and> isViewMorphing y = isViewMorphing x"
  by (auto simp: retarget_def bindE_def typedArraySet_def split: if_splits)

lemma triggerMorph_fields:
  assumes "triggerMorph ev x = Inr y"
  shows "(morphProgress y = morphProgress x \<or> morphProgress y = 0)
       \<and> isViewMorphing y = isViewMorphing x"
proof (cases "viewMode ev = ''objects'' \<and> frameCount x mod shapeChangeInterval = 0
          \<and> 1 < length (modelData ev) \<and> \<not> isViewMorphing x")
  case True
  let ?n = "(localCurrentShape x + 1) mod length (modelData ev)"
  from assms True obtain z where z: "retarget x (modelData ev ! ?n) ''objects'' = Inr z"
      and y: "y = z\<lparr>localCurrentShape := ?n\<rparr>"
    by (auto simp: triggerMorph_def Let_def bindE_def split: sum.splits)
  from retarget_fields [OF z] y show ?thesis by simp
next
  case False
  with assms show ?thesis
    by (auto simp: triggerMorph_def dest: retarget_fields split: if_splits)
qed

lemma viewStep_morphProgress: "morphProgress (viewStep s) = morphProgress s"
  by (simp add: viewStep_def Let_def)

lemma morphStep_view_flag: "isViewMorphing (morphStep s) = isViewMorphing s"
  by (simp add: morphStep_def Let_def)

lemma morphStep_blocked: "isViewMorphing s \<Longrightarrow> morphStep s = s"
  by (simp add: morphStep_def)

lemma tick_view_guard:
  assumes t: "tick ev s = Inr s'" and v: "isViewMorphing s'"
  shows "morphProgress s' = morphProgress s \<or> morphProgress s' = 0"
proof -
  let ?sv = "viewStep (s\<lparr>frameCount := frameCount s + 1\<rparr>)"
  from t obtain s1 where s1: "triggerMorph ev ?sv = Inr s1" and s': "s' = rippleStep (morphStep s1)"
    by (auto simp: tick_def bindE_def split: sum.splits)
  from v s' have "isViewMorphing s1" by (simp add: rippleStep_fields morphStep_view_flag)
  then have "morphProgress s' = morphProgress s1"
    using s' by (simp add: rippleStep_fields morphStep_blocked)
  moreover have "morphProgress ?sv = morphProgress s" by (simp add: viewStep_morphProgress)
  ultimately show ?thesis using triggerMorph_fields [OF s1] by auto
qed

lemma triggerMorph_view_mode:
  assumes ok: "schedOk ev s"
      and mode: "viewMode ev = ''about'' \<or> viewMode ev = ''projects'' \<or> viewMode ev = ''CV''
                 \<or> viewMode ev = ''icons''"
      and diff: "viewMode ev \<noteq> lastViewMode s"
  shows "triggerMorph ev s
           = Inr (s\<lparr>morphProgress := 0, isMorphing := True,
                    targetPosition := positions (scrollModel ev),
                    originalPosition := position s, lastViewMode := viewMode ev\<rparr>)"
proof -
  note sc = scroll_ok [OF ok]
  have r: "retarget s (scrollModel ev) m
      = Inr (s\<lparr>morphProgress := 0, isMorphing := True, targetPosition := positions (scrollModel ev),
                originalPosition := position s, lastViewMode := m\<rparr>)" for m
    using retarget_ok [OF ok, of "scrollModel ev" m] sc by simp
  from mode diff show ?thesis
    by (auto simp: triggerMorph_def r)
qed

lemma tick_view_change:
  assumes ok: "schedOk ev s"
      and mode: "viewMode ev = ''about'' \<or> viewMode ev = ''projects'' \<or> viewMode ev = ''CV''
                 \<or> viewMode ev = ''icons''"
      and diff: "viewMode ev \<noteq> lastViewMode s"
  shows "\<exists>s'. tick ev s = Inr s'
          \<and> morphProgress s' = 1 / morphDuration \<and> isMorphing s'
          \<and> originalPosition s' = position s
          \<and> targetPosition s' = positions (scrollModel ev)
          \<and> lastViewMode s' = viewMode ev
          \<and> isViewMorphing s' = isViewMorphing s"
proof -
  let ?s0 = "s\<lparr>frameCount := frameCount s + 1\<rparr>"
  let ?s1 = "?s0\<lparr>morphProgress := 0, isMorphing := True,
                 targetPosition := positions (scrollModel ev),
                 originalPosition := position ?s0, lastViewMode := viewMode ev\<rparr>"
  have ok0: "schedOk ev ?s0" using ok by (simp add: schedOk_def)
  have nv: "\<not> isViewMorphing s" using ok by (simp add: schedOk_def)
  have v: "viewStep ?s0 = ?s0" using nv by (simp add: viewStep_idle)
  have d0: "viewMode ev \<noteq> lastViewMode ?s0" using diff by simp
  have tr: "triggerMorph ev ?s0 = Inr ?s1"
    by (rule triggerMorph_view_mode [OF ok0 mode d0])
  have "tick ev s = bindE (triggerMorph ev (viewStep ?s0)) (\<lambda>s'. Inr (rippleStep (morphStep s')))"
    by (simp only: tick_def)
  then have t: "tick ev s = Inr (rippleStep (morphStep ?s1))"
    unfolding v tr by (simp add: bindE_def)
  have ms: "morphStep ?s1 = ?s1\<lparr>morphProgress := 1 / morphDuration,
                position := interpolate ?s1 (eased (1 / morphDuration))\<rparr>"
    using nv by (simp add: morphStep_def Let_def morphDuration_def)
  show ?thesis
    unfolding t ms by (simp add: rippleStep_fields)
qed

text \<open>
  Claim C8 as stated has the scheduler enter the ViewMorphing state with a progress of 0. In
  the code a view-mode change restarts the morph on the variables of the shape morph; the
  flag \<open>isViewMorphing\<close> is not touched, and the restarted morph takes its first step in the
  same tick. Here a shape morph is half way when the mode becomes \<open>about\<close>.
\<close>

theorem tick_view_change_counterexample:
  "map_sum id (\<lambda>s'. (isViewMorphing s', morphProgress s')) (tick (env1 ''about'') (sched1 (1 / 2)))
     = Inr (False, 1 / 120)"
proof -
  have ok: "schedOk (env1 ''about'') (sched1 (1 / 2))" by (simp add: env1_sched1_ok)
  have mode: "viewMode (env1 ''about'') = ''about'' \<or> viewMode (env1 ''about'') = ''projects''
      \<or> viewMode (env1 ''about'') = ''CV'' \<or> viewMode (env1 ''about'') = ''icons''"
    by (simp add: env1_def)
  have diff: "viewMode (env1 ''about'') \<noteq> lastViewMode (sched1 (1 / 2))"
    by (simp add: env1_def sched1_def)
  from tick_view_change [OF ok mode diff] obtain s' where
    "tick (env1 ''about'') (sched1 (1 / 2)) = Inr s'" "morphProgress s' = 1 / morphDuration"
    "isViewMorphing s' = isViewMorphing (sched1 (1 / 2))" by blast
  then show ?thesis by (simp add: morphDuration_def sched1_def)
qed

text \<open>
  Claim C8, amended. In a state without view morphing, a tick that finds the view mode to
  be one of \<open>about\<close>, \<open>projects\<close>, \<open>CV\<close>, \<open>icons\<close> and different from \<open>lastViewMode\<close> restarts the
  morph, whatever progress a morph in flight had: the original buffer becomes the current
  buffer as it was before the tick, the target buffer becomes the scroll mesh,
  \<open>lastViewMode\<close> the new mode, \<open>isMorphing\<close> is set, and \<open>morphProgress\<close> restarts from 0 and
  stands at \<open>1 / morphDuration\<close> when the tick ends. And in any tick that ends with
  \<open>isViewMorphing\<close> set, \<open>morphProgress\<close> has not advanced: it is unchanged or reset to 0.
\<close>

theorem tick_view_change_restarts:
  "(schedOk ev s
     \<and> (viewMode ev = ''about'' \<or> viewMode ev = ''projects'' \<or> viewMode ev = ''CV''
         \<or> viewMode ev = ''icons'')
     \<and> viewMode ev \<noteq> lastViewMode s \<longrightarrow>
       (\<exists>s'. tick ev s = Inr s'
          \<and> morphProgress s' = 1 / morphDuration \<and> isMorphing s'
          \<and> originalPosition s' = position s
          \<and> targetPosition s' = positions (scrollModel ev)
          \<and> lastViewMode s' = viewMode ev))
   \<and> (tick ev2 s2 = Inr s2' \<and> isViewMorphing s2' \<longrightarrow>
         morphProgress s2' = morphProgress s2 \<or> morphProgress s2' = 0)"
proof (intro conjI impI)
  assume a: "schedOk ev s
     \<and> (viewMode ev = ''about'' \<or> viewMode ev = ''projects'' \<or> viewMode ev = ''CV''
         \<or> viewMode ev = ''icons'')
     \<and> viewMode ev \<noteq> lastViewMode s"
  then have "\<exists>s'. tick ev s = Inr s'
          \<and> morphProgress s' = 1 / morphDuration \<and> isMorphing s'
          \<and> originalPosition s' = position s
          \<and> targetPosition s' = positions (scrollModel ev)
          \<and> lastViewMode s' = viewMode ev
          \<and> isViewMorphing s' = isViewMorphing s"
    by (intro tick_view_change) simp_all
  then show "\<exists>s'. tick ev s = Inr s'
          \<and> morphProgress s' = 1 / morphDuration \<and> isMorphing s'
          \<and> originalPosition s' = position s
          \<and> targetPosition s' = positions (scrollModel ev)
          \<and> lastViewMode s' = viewMode ev"
    by blast
next
  assume "tick ev2 s2 = Inr s2' \<and> isViewMorphing s2'"
  then show "morphProgress s2' = morphProgress s2 \<or> morphProgress s2' = 0"
    using tick_view_guard [of ev2 s2 s2'] by simp
qed

text \<open>
  A shape morph half way when the mode becomes \<open>about\<close>; and a state with the view-morph
  flag set, whose morph progress a tick leaves alone.
\<close>

theorem tick_view_change_restarts_witness:
  "(\<exists>s'. tick (env1 ''about'') (sched1 (1 / 2)) = Inr s'
       \<and> morphProgress s' = 1 / 120 \<and> isMorphing s'
       \<and> originalPosition s' = [Fin (1 / 2), Fin (1 / 2), Fin 0]
       \<and> targetPosition s' = [Fin 0, Fin 0, Fin 1]
       \<and> lastViewMode s' = ''about'')
   \<and> (\<exists>s'. tick (env1 ''objects'') sched2 = Inr s' \<and> isViewMorphing s'
          \<and> morphProgress s' = 1 / 2)"
proof -
  let ?ev = "env1 ''about''" and ?s = "sched1 (1 / 2)"
  have ok: "schedOk ?ev ?s" by (simp add: env1_sched1_ok)
  have mode: "viewMode ?ev = ''about'' \<or> viewMode ?ev = ''projects''
      \<or> viewMode ?ev = ''CV'' \<or> viewMode ?ev = ''icons''"
    by (simp add: env1_def)
  have diff: "viewMode ?ev \<noteq> lastViewMode ?s" by (simp add: env1_def sched1_def)
  have "\<exists>s'. tick ?ev ?s = Inr s'
          \<and> morphProgress s' = 1 / morphDuration \<and> isMorphing s'
          \<and> originalPosition s' = position ?s
          \<and> targetPosition s' = positions (scrollModel ?ev)
          \<and> lastViewMode s' = viewMode ?ev"
    using tick_view_change_restarts [of ?ev ?s] ok mode diff by blast
  then have a: "\<exists>s'. tick ?ev ?s = Inr s'
       \<and> morphProgress s' = 1 / 120 \<and> isMorphing s'
       \<and> originalPosition s' = [Fin (1 / 2), Fin (1 / 2), Fin 0]
       \<and> targetPosition s' = [Fin 0, Fin 0, Fin 1]
       \<and> lastViewMode s' = ''about''"
    by (simp add: env1_def sched1_def morphDuration_def)
  obtain s2' where t2: "tick (env1 ''objects'') sched2 = Inr s2'" and v2: "isViewMorphing s2'"
    by (simp add: tick_def bindE_def triggerMorph_def viewStep_def morphStep_def rippleStep_def
          env1_def sched2_def shapeChangeInterval_def morphDuration_def Let_def)
  have "morphProgress s2' = morphProgress sched2 \<or> morphProgress s2' = 0"
    using tick_view_change_restarts [of ev s "env1 ''objects''" sched2 s2' for ev s] t2 v2 by blast
  moreover have "morphProgress s2' \<noteq> 0"
    using t2 by (auto simp: tick_def bindE_def triggerMorph_def viewStep_def morphStep_def
          rippleStep_def env1_def sched2_def shapeChangeInterval_def morphDuration_def Let_def)
  ultimately have "morphProgress s2' = 1 / 2" by (simp add: sched2_def)
  with t2 v2 a show ?thesis by blast
qed

end
